theory Spec2Isabelle
  imports Complex_Main "HOL-Library.Word"
begin

section \<open>The device sketch container of \<^verbatim>\<open>src/common/quantile.cuh\<close>\<close>

text \<open>
  The header declares \<^verbatim>\<open>SketchContainer\<close>, the per-column quantile summary held
  in accelerator memory.  Defined in the header itself are the value comparator
  \<^verbatim>\<open>detail::SketchUnique\<close>, the double-buffer accessors \<^verbatim>\<open>Current\<close>,
  \<^verbatim>\<open>Other\<close>, \<^verbatim>\<open>Alternate\<close>, the column accessor \<^verbatim>\<open>Column\<close>, the
  constructor, \<^verbatim>\<open>HasCategorical\<close> and \<^verbatim>\<open>Unique\<close>.  The members
  \<^verbatim>\<open>Push\<close>, \<^verbatim>\<open>Prune\<close>, \<^verbatim>\<open>Merge\<close>, \<^verbatim>\<open>FixError\<close>, \<^verbatim>\<open>AllReduce\<close>
  and \<^verbatim>\<open>MakeCuts\<close> are only declared there.

  Conventions of the embedding.
  \<^item> The value of an entry is a \<open>bst_float\<close>: a finite number, an infinity or NaN,
    with the comparisons and the subtraction of IEEE arithmetic.  Ranks and weights
    are finite and modelled by \<open>real\<close>; the operations embedded here only compare
    them and take their maxima, which does not round.
  \<^item> \<^verbatim>\<open>size_t\<close> offsets and sizes are \<open>nat\<close>; \<^verbatim>\<open>bst_feature_t\<close> is a 32-bit
    word, so that \<^verbatim>\<open>num_columns + 1\<close> wraps as it does in the source.
  \<^item> \<^verbatim>\<open>int32_t\<close> is a 32-bit word read with \<open>sint\<close>.
  \<^item> A failed \<^verbatim>\<open>CHECK\<close> is the \<open>Inl\<close> branch of a sum.
  \<^item> The \<^verbatim>\<open>Monitor\<close> timer and the host/device residency of
    \<^verbatim>\<open>HostDeviceVector\<close> are not part of the state.
\<close>

subsection \<open>Floating-point values\<close>

text \<open>
  Modelled from the spec: \<^verbatim>\<open>bst_float\<close> is declared in \<^verbatim>\<open>xgboost/base.h\<close>, which
  is missing from the sources; the spec speaks of floating-point values.  A value is
  a finite number, positive or negative infinity, or NaN.
\<close>

datatype bst_float = Finite real | PInf | NInf | NaN

text \<open>
  Modelled from the spec: the arithmetic of \<^verbatim>\<open>bst_float\<close>, which the sources use
  and do not declare.  Zero is the finite number 0.  The difference of two finite
  values is taken exactly: rounding and overflow do not change whether a difference
  is zero, which is all the header asks of it.  An infinity minus a finite value or
  minus the opposite infinity is that infinity; an infinity minus itself is NaN, and
  so is every difference with NaN.  \<open>\<le>\<close> and \<open><\<close> order the infinities below
  and above every finite value and are false whenever NaN takes part.  A test
  \<^verbatim>\<open>x == 0\<close> is the equation \<open>x = 0\<close>: neither NaN nor an infinity is zero.
\<close>

instantiation bst_float :: "{zero, minus, ord}"
begin

definition zero_bst_float :: bst_float where
  "zero_bst_float = Finite 0"

fun minus_bst_float :: "bst_float \<Rightarrow> bst_float \<Rightarrow> bst_float" where
  "minus_bst_float (Finite x) (Finite y) = Finite (x - y)"
| "minus_bst_float (Finite x) PInf = NInf"
| "minus_bst_float (Finite x) NInf = PInf"
| "minus_bst_float PInf (Finite y) = PInf"
| "minus_bst_float PInf NInf = PInf"
| "minus_bst_float PInf PInf = NaN"
| "minus_bst_float NInf (Finite y) = NInf"
| "minus_bst_float NInf PInf = NInf"
| "minus_bst_float NInf NInf = NaN"
| "minus_bst_float NaN v = NaN"
| "minus_bst_float u NaN = NaN"

fun less_eq_bst_float :: "bst_float \<Rightarrow> bst_float \<Rightarrow> bool" where
  "less_eq_bst_float (Finite x) (Finite y) = (x \<le> y)"
| "less_eq_bst_float (Finite x) PInf = True"
| "less_eq_bst_float (Finite x) NInf = False"
| "less_eq_bst_float PInf (Finite y) = False"
| "less_eq_bst_float PInf PInf = True"
| "less_eq_bst_float PInf NInf = False"
| "less_eq_bst_float NInf (Finite y) = True"
| "less_eq_bst_float NInf PInf = True"
| "less_eq_bst_float NInf NInf = True"
| "less_eq_bst_float NaN v = False"
| "less_eq_bst_float u NaN = False"

fun less_bst_float :: "bst_float \<Rightarrow> bst_float \<Rightarrow> bool" where
  "less_bst_float (Finite x) (Finite y) = (x < y)"
| "less_bst_float (Finite x) PInf = True"
| "less_bst_float (Finite x) NInf = False"
| "less_bst_float PInf (Finite y) = False"
| "less_bst_float PInf PInf = False"
| "less_bst_float PInf NInf = False"
| "less_bst_float NInf (Finite y) = True"
| "less_bst_float NInf PInf = True"
| "less_bst_float NInf NInf = False"
| "less_bst_float NaN v = False"
| "less_bst_float u NaN = False"

instance ..

end


subsection \<open>Entries, feature types, failures\<close>

text \<open>
  Modelled from the spec: \<^verbatim>\<open>WQSketch::Entry\<close> is declared in \<^verbatim>\<open>quantile.h\<close>,
  which is missing from the sources.  The spec gives it the four fields \<^verbatim>\<open>value\<close>,
  \<^verbatim>\<open>weight_min\<close>, \<^verbatim>\<open>rank_min\<close> and \<^verbatim>\<open>rank_max\<close>; the header reads
  \<^verbatim>\<open>value\<close> only.
\<close>

record SketchEntry =
  rank_min :: real
  rank_max :: real
  weight_min :: real
  entry_value :: bst_float

text \<open>
  Modelled from the spec: \<^verbatim>\<open>FeatureType\<close> is declared in \<^verbatim>\<open>xgboost/data.h\<close>,
  which is missing from the sources.  The spec knows a single per-column flag, "is
  this column categorical".
\<close>

datatype FeatureType = kNumerical | kCategorical

text \<open>
  Modelled from the spec: \<^verbatim>\<open>common::IsCatOp\<close> is declared in
  \<^verbatim>\<open>categorical.h\<close>, which is missing from the sources.  It is the test of that
  flag.
\<close>

definition IsCatOp :: "FeatureType \<Rightarrow> bool" where
  "IsCatOp ft = (ft = kCategorical)"

datatype failure =
    CheckDevice          \<comment> \<open>\<^verbatim>\<open>CHECK_GE(device, 0)\<close> in the constructor\<close>
  | CheckColumnScan      \<comment> \<open>\<^verbatim>\<open>CHECK_EQ(d_column_scan.size(), num_columns_ + 1)\<close> in Unique\<close>
  | SpanOutOfRange       \<comment> \<open>a bounds check of \<^verbatim>\<open>Span\<close> indexing or \<^verbatim>\<open>subspan\<close>\<close>

subsection \<open>\<^verbatim>\<open>detail::SketchUnique\<close>\<close>

text \<open>
  Lines 25-29: \<^verbatim>\<open>a.value - b.value == 0\<close>, in the arithmetic of \<open>bst_float\<close>.
  Two entries of the same finite value compare equal; two entries of the same
  infinite value do not, their difference being NaN.
\<close>

definition SketchUnique :: "SketchEntry \<Rightarrow> SketchEntry \<Rightarrow> bool" where
  "SketchUnique a b = (entry_value a - entry_value b = 0)"

subsection \<open>The container state\<close>

record SketchContainer =
  feature_types :: "FeatureType list"
  num_rows :: nat
  num_columns :: "32 word"
  num_bins :: "32 word"
  device :: "32 word"
  entries_a :: "SketchEntry list"
  entries_b :: "SketchEntry list"
  current_buffer :: bool
  columns_ptr :: "nat list"
  columns_ptr_b :: "nat list"
  has_categorical :: bool

text \<open>
  \<^verbatim>\<open>Current()\<close> and \<^verbatim>\<open>Other()\<close> return references.  A reference to one of the two
  member vectors is the name of that member; \<open>buf\<close> reads through it and
  \<open>set_buf\<close> writes through it.
\<close>

datatype buffer = EntriesA | EntriesB

fun buf :: "SketchContainer \<Rightarrow> buffer \<Rightarrow> SketchEntry list" where
  "buf s EntriesA = entries_a s"
| "buf s EntriesB = entries_b s"

fun set_buf :: "buffer \<Rightarrow> SketchEntry list \<Rightarrow> SketchContainer \<Rightarrow> SketchContainer" where
  "set_buf EntriesA xs s = s\<lparr>entries_a := xs\<rparr>"
| "set_buf EntriesB xs s = s\<lparr>entries_b := xs\<rparr>"

definition Current :: "SketchContainer \<Rightarrow> buffer" where
  "Current s = (if current_buffer s then EntriesA else EntriesB)"

definition Other :: "SketchContainer \<Rightarrow> buffer" where
  "Other s = (if \<not> current_buffer s then EntriesA else EntriesB)"

definition Alternate :: "SketchContainer \<Rightarrow> SketchContainer" where
  "Alternate s = s\<lparr>current_buffer := \<not> current_buffer s\<rparr>"

subsection \<open>Column layout\<close>

text \<open>
  The container is a CSC matrix: \<open>columns_ptr\<close> holds one offset per column plus a
  closing one, and column \<open>i\<close> is the sub-range of the current buffer between offset
  \<open>i\<close> and offset \<open>i + 1\<close>.  \<open>segment\<close> is the
  \<^verbatim>\<open>subspan(ptr[i], ptr[i+1] - ptr[i])\<close> that every operation takes.
\<close>

definition segment :: "nat list \<Rightarrow> 'a list \<Rightarrow> nat \<Rightarrow> 'a list" where
  "segment ptr data i = take (ptr ! (i + 1) - ptr ! i) (drop (ptr ! i) data)"

text \<open>
  \<^verbatim>\<open>Column(i)\<close>, lines 85-90.  The index is a \<^verbatim>\<open>bst_feature_t\<close>, so
  \<^verbatim>\<open>i+1\<close> wraps at 32 bits.  \<^verbatim>\<open>Span\<close> checks its indices and the range of
  \<^verbatim>\<open>subspan\<close>; a failed check ends the program.
\<close>

definition Column :: "32 word \<Rightarrow> SketchContainer \<Rightarrow> failure + SketchEntry list" where
  "Column i s =
     (let data = buf s (Current s);
          h_ptr = columns_ptr s
      in if unat i < length h_ptr \<and> unat (i + 1) < length h_ptr
            \<and> h_ptr ! unat i \<le> h_ptr ! unat (i + 1)
            \<and> h_ptr ! unat (i + 1) \<le> length data
         then Inr (take (h_ptr ! unat (i + 1) - h_ptr ! unat i) (drop (h_ptr ! unat i) data))
         else Inl SpanOutOfRange)"

text \<open>
  The layout invariant of the data model: at least one offset, the first one zero, the
  offsets non-decreasing, the last one the size of the buffer they index.
\<close>

definition wf_layout :: "nat list \<Rightarrow> nat \<Rightarrow> bool" where
  "wf_layout ptr n = (ptr \<noteq> [] \<and> hd ptr = 0 \<and> last ptr = n \<and> sorted ptr)"

definition wf :: "SketchContainer \<Rightarrow> bool" where
  "wf s = wf_layout (columns_ptr s) (length (buf s (Current s)))"

text \<open>All columns of the current generation, in column order.\<close>

definition columns :: "SketchContainer \<Rightarrow> SketchEntry list list" where
  "columns s =
     map (segment (columns_ptr s) (buf s (Current s))) [0..<length (columns_ptr s) - 1]"

text \<open>
  The order in which Ingestion and Merge leave a column: by value.  NaN has no place
  in the order, so a sorted column holds none.
\<close>

definition sorted_by_value :: "SketchEntry list \<Rightarrow> bool" where
  "sorted_by_value col =
     (list_all (\<lambda>e. entry_value e \<noteq> NaN) col
      \<and> sorted_wrt (\<lambda>a b. entry_value a \<le> entry_value b) col)"


subsection \<open>The constructor and \<^verbatim>\<open>HasCategorical\<close>\<close>

text \<open>
  Lines 100-126.  \<^verbatim>\<open>Resize(num_columns + 1)\<close> fills both layouts with zeros; the
  sum is computed in \<^verbatim>\<open>bst_feature_t\<close>.  \<^verbatim>\<open>thrust::any_of\<close> over the feature
  types is \<open>list_ex\<close>.
\<close>

definition NewSketchContainer ::
  "FeatureType list \<Rightarrow> 32 word \<Rightarrow> 32 word \<Rightarrow> nat \<Rightarrow> 32 word \<Rightarrow> failure + SketchContainer" where
  "NewSketchContainer ftypes max_bin n_columns n_rows dev =
     (if \<not> (0 \<le> sint dev) then Inl CheckDevice
      else Inr \<lparr>feature_types = ftypes,
                num_rows = n_rows,
                num_columns = n_columns,
                num_bins = max_bin,
                device = dev,
                entries_a = [],
                entries_b = [],
                current_buffer = True,
                columns_ptr = replicate (unat (n_columns + 1)) 0,
                columns_ptr_b = replicate (unat (n_columns + 1)) 0,
                has_categorical = (\<not> (ftypes = []) \<and> list_ex IsCatOp ftypes)\<rparr>)"

definition HasCategorical :: "SketchContainer \<Rightarrow> bool" where
  "HasCategorical s = has_categorical s"

subsection \<open>\<^verbatim>\<open>Unique\<close>\<close>

text \<open>
  \<^verbatim>\<open>Unique\<close> delegates the compaction to \<^verbatim>\<open>dh::SegmentedUnique\<close>, defined in
  \<^verbatim>\<open>device_helpers.cuh\<close>, which is not among the sources.  The spec describes it as
  a segmented "keep first of each equal run" scan per column, the segment boundaries
  given by the column layout, producing a compacted output layout and buffer, and
  returning the new total entry count.  Its three parts follow.
\<close>

text \<open>
  Modelled from the spec: the scan of \<^verbatim>\<open>dh::SegmentedUnique\<close> over one column,
  which is missing from the sources.  It keeps the first entry of each run of entries
  that compare equal and drops the rest of the run.
\<close>

fun unique_run :: "('a \<Rightarrow> 'a \<Rightarrow> bool) \<Rightarrow> 'a list \<Rightarrow> 'a list" where
  "unique_run eq [] = []"
| "unique_run eq [x] = [x]"
| "unique_run eq (x # y # ys) =
     (if eq x y then unique_run eq (x # ys) else x # unique_run eq (y # ys))"

text \<open>
  Modelled from the spec: the output layout of \<^verbatim>\<open>dh::SegmentedUnique\<close>, which is
  missing from the sources.  A layout of \<open>k\<close> offsets is the exclusive scan of the
  per-column counts: offset \<open>j\<close> is the number of entries in the columns before
  column \<open>j\<close>.
\<close>

definition exclusive_scan :: "nat \<Rightarrow> nat list \<Rightarrow> nat list" where
  "exclusive_scan k counts = map (\<lambda>j. sum_list (take j counts)) [0..<k]"

text \<open>
  Modelled from the spec: \<^verbatim>\<open>dh::SegmentedUnique\<close> (\<^verbatim>\<open>device_helpers.cuh\<close>),
  which is missing from the sources.  The arguments are those of the call on lines
  193-197: the input layout, the entries, the value comparator and the key
  comparator.  The value comparator compares two entries.  The key comparator, which
  \<^verbatim>\<open>Unique\<close> declares over \<^verbatim>\<open>size_t\<close> with \<^verbatim>\<open>thrust::equal_to\<close> as default,
  compares the column indices of the two entries; within column \<open>c\<close> both indices are
  \<open>c\<close>.  Two entries are duplicates when both comparators say so.  The result is the
  output layout, with as many offsets as the input layout, the compacted entries of
  all columns in column order, and their number.
\<close>

definition SegmentedUnique ::
  "nat list \<Rightarrow> 'a list \<Rightarrow> ('a \<Rightarrow> 'a \<Rightarrow> bool) \<Rightarrow> (nat \<Rightarrow> nat \<Rightarrow> bool)
     \<Rightarrow> nat list \<times> 'a list \<times> nat" where
  "SegmentedUnique key_segments vals val_comp key_comp =
     (let outs = map (\<lambda>c. unique_run (\<lambda>a b. key_comp c c \<and> val_comp a b)
                              (segment key_segments vals c))
                   [0..<length key_segments - 1];
          val_out = concat outs
      in (exclusive_scan (length key_segments) (map length outs), val_out, length val_out))"

text \<open>
  \<^verbatim>\<open>Unique\<close>, lines 179-204.  The input range and the output pointer handed to
  \<^verbatim>\<open>SegmentedUnique\<close> are both \<^verbatim>\<open>entries.data()\<close>, the current buffer: the
  compacted entries overwrite the front of their own input.  The new layout is copied
  into \<open>columns_ptr\<close> and the current buffer is resized to the returned count, which
  never exceeds the size of the buffer written.  \<^verbatim>\<open>Alternate\<close> is not called.
  \<^verbatim>\<open>cudaSetDevice\<close>, the timer and the last \<^verbatim>\<open>CHECK\<close> of the function, which
  reads the residency of \<open>columns_ptr\<close>, have no counterpart here.
\<close>

definition Unique ::
  "(nat \<Rightarrow> nat \<Rightarrow> bool) \<Rightarrow> SketchContainer \<Rightarrow> failure + (SketchContainer \<times> nat)" where
  "Unique key_comp s =
     (let d_column_scan = columns_ptr s in
      if length d_column_scan \<noteq> unat (num_columns s + 1) then Inl CheckColumnScan
      else
        let entries = buf s (Current s);
            (scan_out, val_out, n_uniques) =
               SegmentedUnique d_column_scan entries SketchUnique key_comp;
            s1 = set_buf (Current s) (val_out @ drop (length val_out) entries) s;
            s2 = s1\<lparr>columns_ptr := scan_out\<rparr>;
            s3 = set_buf (Current s2) (take n_uniques (buf s2 (Current s2))) s2
        in Inr (s3, n_uniques))"


subsection \<open>\<^verbatim>\<open>Prune\<close>\<close>

text \<open>
  Modelled from the spec: the selection that \<^verbatim>\<open>Prune\<close> makes in one column;
  \<^verbatim>\<open>Prune\<close> is declared on line 153 and defined in a file that is missing from the
  sources.  By the spec a column with at most \<open>to\<close> entries is left as it is; a
  longer one is replaced by \<open>to\<close> selected entries, the first of them the column's
  first entry and the last of them the column's last entry, the ones in between found
  by a nearest-rank lookup over the midpoint ranks.  The spec leaves the lookup rule
  open, so it is the parameter \<open>pick\<close>: \<open>pick to col k\<close> is the entry selected for
  output position \<open>k\<close>.
\<close>

definition PruneColumn ::
  "(nat \<Rightarrow> SketchEntry list \<Rightarrow> nat \<Rightarrow> SketchEntry) \<Rightarrow> nat \<Rightarrow> SketchEntry list
     \<Rightarrow> SketchEntry list" where
  "PruneColumn pick to col =
     (if length col \<le> to then col
      else map (\<lambda>k. if k = 0 then hd col
                     else if k = to - 1 then last col
                     else pick to col k) [0..<to])"

text \<open>
  Modelled from the spec: \<^verbatim>\<open>Prune\<close>, declared on line 153 and defined in a file
  that is missing from the sources.  Every column is pruned on its own; by the spec
  the output goes to the other buffer, the layout is replaced by the scan of the new
  counts, and the buffer roles are exchanged.
\<close>

definition Prune ::
  "(nat \<Rightarrow> SketchEntry list \<Rightarrow> nat \<Rightarrow> SketchEntry) \<Rightarrow> nat \<Rightarrow> SketchContainer
     \<Rightarrow> SketchContainer" where
  "Prune pick to s =
     (let ptr = columns_ptr s;
          outs = map (\<lambda>c. PruneColumn pick to (segment ptr (buf s (Current s)) c))
                   [0..<length ptr - 1];
          s1 = set_buf (Other s) (concat outs) s;
          s2 = s1\<lparr>columns_ptr := exclusive_scan (length ptr) (map length outs)\<rparr>
      in Alternate s2)"

text \<open>A lookup rule to run \<open>Prune\<close> with: the entry at the output position.\<close>

definition pick_at :: "nat \<Rightarrow> SketchEntry list \<Rightarrow> nat \<Rightarrow> SketchEntry" where
  "pick_at to col k = col ! k"

subsection \<open>\<^verbatim>\<open>FixError\<close>\<close>

text \<open>
  Modelled from the spec: the pass that \<^verbatim>\<open>FixError\<close> makes over a column;
  \<^verbatim>\<open>FixError\<close> is declared on line 135 and defined in a file that is missing from
  the sources.  By the spec it is a forward pass in value order that clamps an entry's
  \<open>rank_min\<close> to be no less than the previous entry's \<open>rank_min\<close>, and its
  \<open>rank_max\<close> to be no less than its own \<open>rank_min\<close> and no less than the previous
  entry's \<open>rank_max\<close>.  \<open>prev_rmin\<close> and \<open>prev_rmax\<close> are the bounds of the
  previous entry as the pass has left them.
\<close>

fun FixErrorFrom :: "real \<Rightarrow> real \<Rightarrow> SketchEntry list \<Rightarrow> SketchEntry list" where
  "FixErrorFrom prev_rmin prev_rmax [] = []"
| "FixErrorFrom prev_rmin prev_rmax (e # es) =
     (let rmin = max (rank_min e) prev_rmin;
          rmax = max (max (rank_max e) rmin) prev_rmax
      in e\<lparr>rank_min := rmin, rank_max := rmax\<rparr> # FixErrorFrom rmin rmax es)"

text \<open>
  Modelled from the spec: the start of the pass of \<^verbatim>\<open>FixError\<close>, which is missing
  from the sources.  By the spec the pass restores monotonicity and non-negativity,
  so the bounds before the first entry of a column are zero.
\<close>

definition FixErrorColumn :: "SketchEntry list \<Rightarrow> SketchEntry list" where
  "FixErrorColumn col = FixErrorFrom 0 0 col"

text \<open>
  Modelled from the spec: \<^verbatim>\<open>FixError\<close>, declared on line 135 and defined in a file
  that is missing from the sources.  By the spec it works column by column and
  neither removes nor reorders entries: the pass rewrites the current buffer and
  leaves the layout and the buffer roles alone.
\<close>

definition FixError :: "SketchContainer \<Rightarrow> SketchContainer" where
  "FixError s =
     set_buf (Current s)
       (concat (map (\<lambda>c. FixErrorColumn (segment (columns_ptr s) (buf s (Current s)) c))
                  [0..<length (columns_ptr s) - 1])) s"

text \<open>The invariant that \<open>FixError\<close> is to re-establish in a column.\<close>

definition rank_bounds_ok :: "SketchEntry list \<Rightarrow> bool" where
  "rank_bounds_ok col =
     (list_all (\<lambda>e. rank_min e \<le> rank_max e) col
      \<and> sorted (map rank_min col) \<and> sorted (map rank_max col))"

subsection \<open>Example states\<close>

definition mk_entry :: "real \<Rightarrow> real \<Rightarrow> real \<Rightarrow> real \<Rightarrow> SketchEntry" where
  "mk_entry rmin rmax wmin v =
     \<lparr>rank_min = rmin, rank_max = rmax, weight_min = wmin, entry_value = Finite v\<rparr>"


definition mk_state :: "SketchEntry list \<Rightarrow> nat list \<Rightarrow> SketchContainer" where
  "mk_state es ptr =
     \<lparr>feature_types = [], num_rows = length es, num_columns = of_nat (length ptr - 1),
      num_bins = 256, device = 0, entries_a = es, entries_b = [], current_buffer = True,
      columns_ptr = ptr, columns_ptr_b = replicate (length ptr) 0, has_categorical = False\<rparr>"

definition two_columns :: SketchContainer where
  "two_columns =
     mk_state [mk_entry 0 1 1 1, mk_entry 1 2 1 1, mk_entry 2 3 1 2,
               mk_entry 0 1 1 5, mk_entry 1 2 1 5] [0, 3, 5]"

definition two_columns_unique :: SketchContainer where
  "two_columns_unique =
     two_columns\<lparr>entries_a := [mk_entry 0 1 1 1, mk_entry 2 3 1 2, mk_entry 0 1 1 5],
                 columns_ptr := [0, 2, 3]\<rparr>"


definition drifted :: SketchContainer where
  "drifted = mk_state [mk_entry 2 1 1 1, mk_entry 1 3 1 2, mk_entry 4 2 1 7] [0, 2, 3]"

subsection \<open>States that follow a given state\<close>

text \<open>
  \<open>later s t\<close>: the state \<open>t\<close> is reached from \<open>s\<close> by the operations the header
  defines on a container, \<^verbatim>\<open>Alternate\<close> and a successful \<^verbatim>\<open>Unique\<close>.
\<close>

inductive later :: "SketchContainer \<Rightarrow> SketchContainer \<Rightarrow> bool" where
  later_refl: "later s s"
| later_Alternate: "later s t \<Longrightarrow> later s (Alternate t)"
| later_Unique: "later s t \<Longrightarrow> Unique key_comp t = Inr (t', n) \<Longrightarrow> later s t'"

section \<open>Properties\<close>

subsection \<open>The value comparator on floating-point values\<close>



lemma float_le_refl: "u \<noteq> NaN \<Longrightarrow> (u::bst_float) \<le> u"
  by (cases u) simp_all



subsection \<open>Layouts as scans of column sizes\<close>

lemma length_exclusive_scan: "length (exclusive_scan k cs) = k"
  by (simp add: exclusive_scan_def)

lemma exclusive_scan_nth: "j < k \<Longrightarrow> exclusive_scan k cs ! j = sum_list (take j cs)"
  by (simp add: exclusive_scan_def)

lemma sum_list_take_mono: "i \<le> j \<Longrightarrow> sum_list (take i (cs::nat list)) \<le> sum_list (take j cs)"
proof -
  assume "i \<le> j"
  then have "take j cs = take i cs @ take (j - i) (drop i cs)"
    by (metis le_add_diff_inverse take_add)
  then show ?thesis by simp
qed

lemma wf_layout_scan:
  "wf_layout (exclusive_scan (Suc (length xss)) (map length xss)) (length (concat xss))"
proof -
  let ?p = "exclusive_scan (Suc (length xss)) (map length xss)"
  have ne: "?p \<noteq> []" by (simp add: exclusive_scan_def)
  have h: "hd ?p = 0"
    using ne by (simp add: hd_conv_nth exclusive_scan_nth)
  have l: "last ?p = length (concat xss)"
    using ne by (simp add: last_conv_nth length_exclusive_scan exclusive_scan_nth length_concat)
  have s: "sorted ?p"
    by (simp add: sorted_iff_nth_mono length_exclusive_scan exclusive_scan_nth sum_list_take_mono)
  show ?thesis using ne h l s by (simp add: wf_layout_def)
qed

lemma drop_sum_concat:
  "drop (sum_list (map length (take c xss))) (concat xss) = concat (drop c xss)"
proof (induction xss arbitrary: c)
  case Nil
  then show ?case by simp
next
  case (Cons xs xss)
  then show ?case by (cases c) simp_all
qed

lemma segment_scan_concat:
  assumes "c < length xss"
  shows "segment (exclusive_scan (Suc (length xss)) (map length xss)) (concat xss) c = xss ! c"
proof -
  let ?lens = "map length xss"
  have a: "exclusive_scan (Suc (length xss)) ?lens ! c = sum_list (take c ?lens)"
    using assms by (simp add: exclusive_scan_nth)
  have b: "exclusive_scan (Suc (length xss)) ?lens ! (c + 1) = sum_list (take c ?lens) + length (xss ! c)"
    using assms by (simp add: exclusive_scan_nth take_Suc_conv_app_nth)
  have d: "drop (sum_list (take c ?lens)) (concat xss) = xss ! c @ concat (drop (Suc c) xss)"
    using assms drop_sum_concat [of c xss] by (simp add: take_map Cons_nth_drop_Suc [symmetric])
  show ?thesis
    unfolding segment_def a b by (simp add: d)
qed

lemma concat_segments_prefix:
  assumes "sorted ptr" "hd ptr = 0" "j < length ptr"
  shows "concat (map (segment ptr data) [0..<j]) = take (ptr ! j) data"
  using assms(3)
proof (induction j)
  case 0
  then show ?case using assms(2) by (simp add: hd_conv_nth)
next
  case (Suc j)
  then have le: "ptr ! j \<le> ptr ! Suc j"
    using assms(1) by (simp add: sorted_iff_nth_mono)
  have "take (ptr ! Suc j) data = take (ptr ! j) data @ take (ptr ! Suc j - ptr ! j) (drop (ptr ! j) data)"
    using le by (metis le_add_diff_inverse take_add)
  with Suc show ?case by (simp add: segment_def)
qed

lemma wf_concat_segments:
  assumes "wf_layout ptr (length data)"
  shows "concat (map (segment ptr data) [0..<length ptr - 1]) = data"
proof -
  from assms have ne: "ptr \<noteq> []" and s: "sorted ptr" and h: "hd ptr = 0"
    and l: "last ptr = length data" by (simp_all add: wf_layout_def)
  have "concat (map (segment ptr data) [0..<length ptr - 1]) = take (ptr ! (length ptr - 1)) data"
    using ne by (intro concat_segments_prefix [OF s h]) simp
  then show ?thesis using ne l by (simp add: last_conv_nth)
qed

lemma wf_layout_is_scan:
  assumes "wf_layout ptr (length data)"
  shows "exclusive_scan (length ptr) (map length (map (segment ptr data) [0..<length ptr - 1])) = ptr"
proof (rule nth_equalityI)
  show "length (exclusive_scan (length ptr) (map length (map (segment ptr data) [0..<length ptr - 1]))) = length ptr"
    by (simp add: length_exclusive_scan)
next
  fix j
  assume "j < length (exclusive_scan (length ptr) (map length (map (segment ptr data) [0..<length ptr - 1])))"
  then have j: "j < length ptr" by (simp add: length_exclusive_scan)
  from assms have ne: "ptr \<noteq> []" and s: "sorted ptr" and h: "hd ptr = 0"
    and l: "last ptr = length data" by (simp_all add: wf_layout_def)
  have le: "ptr ! j \<le> length data"
  proof -
    have "j \<le> length ptr - 1" "length ptr - 1 < length ptr" using j by simp_all
    with s have "ptr ! j \<le> ptr ! (length ptr - 1)" by (simp only: sorted_iff_nth_mono)
    with l ne show ?thesis by (simp add: last_conv_nth)
  qed
  have "take j (map length (map (segment ptr data) [0..<length ptr - 1]))
        = map length (map (segment ptr data) [0..<j])"
    using j by (simp add: take_map min_def)
  then have "sum_list (take j (map length (map (segment ptr data) [0..<length ptr - 1])))
        = length (concat (map (segment ptr data) [0..<j]))"
    by (simp add: length_concat)
  also have "\<dots> = ptr ! j"
    using concat_segments_prefix [OF s h j, of data] le by simp
  finally show "exclusive_scan (length ptr) (map length (map (segment ptr data) [0..<length ptr - 1])) ! j = ptr ! j"
    using j by (simp add: exclusive_scan_nth)
qed

subsection \<open>Keeping the first entry of each run\<close>













subsection \<open>The state after \<^verbatim>\<open>Unique\<close>\<close>

lemma columns_of_scan:
  "map (segment (exclusive_scan (Suc (length xss)) (map length xss)) (concat xss)) [0..<length xss] = xss"
  by (rule nth_equalityI) (simp_all add: segment_scan_concat)

lemma buf_set_buf: "buf (set_buf b xs s) b' = (if b' = b then xs else buf s b')"
  by (cases b; cases b') simp_all

lemma Current_set_buf: "Current (set_buf b xs s) = Current s"
  by (cases b) (simp_all add: Current_def)

lemma Other_set_buf: "Other (set_buf b xs s) = Other s"
  by (cases b) (simp_all add: Other_def)

lemma columns_ptr_set_buf: "columns_ptr (set_buf b xs s) = columns_ptr s"
  by (cases b) simp_all

lemma has_categorical_set_buf: "has_categorical (set_buf b xs s) = has_categorical s"
  by (cases b) simp_all

lemma num_columns_set_buf: "num_columns (set_buf b xs s) = num_columns s"
  by (cases b) simp_all

lemma Current_neq_Other: "Current s \<noteq> Other s"
  by (simp add: Current_def Other_def)

text \<open>What \<open>Unique\<close> leaves behind, field by field.\<close>

lemma Unique_Inr:
  assumes "Unique key_comp s = Inr (s', n)"
  shows "length (columns_ptr s) = unat (num_columns s + 1)"
    and "current_buffer s' = current_buffer s"
    and "columns_ptr s' = fst (SegmentedUnique (columns_ptr s) (buf s (Current s)) SketchUnique key_comp)"
    and "buf s' (Current s) = fst (snd (SegmentedUnique (columns_ptr s) (buf s (Current s)) SketchUnique key_comp))"
    and "buf s' (Other s) = buf s (Other s)"
    and "n = snd (snd (SegmentedUnique (columns_ptr s) (buf s (Current s)) SketchUnique key_comp))"
    and "has_categorical s' = has_categorical s"
    and "num_columns s' = num_columns s"
  using assms
  by (cases "current_buffer s";
      auto simp: Unique_def Let_def SegmentedUnique_def Current_def Other_def split: if_splits)+

lemma columns_after_rewrite:
  assumes "ptr \<noteq> []" "length outs = length ptr - 1"
  shows "map (segment (exclusive_scan (length ptr) (map length outs)) (concat outs))
           [0..<length (exclusive_scan (length ptr) (map length outs)) - 1] = outs"
    and "wf_layout (exclusive_scan (length ptr) (map length outs)) (length (concat outs))"
proof -
  from assms have k: "length ptr = Suc (length outs)" by (cases ptr) simp_all
  show "map (segment (exclusive_scan (length ptr) (map length outs)) (concat outs))
           [0..<length (exclusive_scan (length ptr) (map length outs)) - 1] = outs"
    by (simp add: k length_exclusive_scan columns_of_scan)
  show "wf_layout (exclusive_scan (length ptr) (map length outs)) (length (concat outs))"
    by (simp add: k wf_layout_scan)
qed

lemma length_columns: "length (columns s) = length (columns_ptr s) - 1"
  by (simp add: columns_def)

lemma columns_nth:
  "c < length (columns s) \<Longrightarrow> columns s ! c = segment (columns_ptr s) (buf s (Current s)) c"
  by (simp add: columns_def)

lemma concat_columns: "wf s \<Longrightarrow> concat (columns s) = buf s (Current s)"
  unfolding wf_def columns_def by (rule wf_concat_segments)


subsection \<open>Double buffer\<close>

text \<open>
  C9.  Whatever the flag, \<open>Current\<close> and \<open>Other\<close> name different member vectors,
  one of them \<open>entries_a\<close> and the other \<open>entries_b\<close>; \<open>Alternate\<close> exchanges
  the two roles and touches neither vector; two calls of \<open>Alternate\<close> give back the
  state they started from.
\<close>

theorem double_buffer_distinct_and_swapped:
  "Current s \<noteq> Other s
   \<and> {Current s, Other s} = {EntriesA, EntriesB}
   \<and> Current (Alternate s) = Other s
   \<and> Other (Alternate s) = Current s
   \<and> buf (Alternate s) (Current (Alternate s)) = buf s (Other s)
   \<and> buf (Alternate s) (Other (Alternate s)) = buf s (Current s)
   \<and> Alternate (Alternate s) = s"
  by (cases "current_buffer s") (auto simp: Current_def Other_def Alternate_def)

subsection \<open>The example container \<open>two_columns\<close>\<close>

text \<open>
  Two columns, the first with the values 1, 1, 2 and the second with the values 5, 5;
  \<open>Unique\<close> with the default key comparator leaves the values 1, 2 and 5.
\<close>

lemma two_columns_wf: "wf two_columns"
  by (simp add: wf_def wf_layout_def two_columns_def mk_state_def Current_def)

lemma two_columns_columns:
  "columns two_columns = [[mk_entry 0 1 1 1, mk_entry 1 2 1 1, mk_entry 2 3 1 2],
                          [mk_entry 0 1 1 5, mk_entry 1 2 1 5]]"
  by (simp add: columns_def segment_def two_columns_def mk_state_def Current_def upt_rec)


lemma two_columns_Unique: "Unique (=) two_columns = Inr (two_columns_unique, 3)"
  by (simp add: Unique_def SegmentedUnique_def segment_def exclusive_scan_def SketchUnique_def
      zero_bst_float_def two_columns_unique_def two_columns_def mk_state_def mk_entry_def
      Current_def upt_rec)


subsection \<open>The example container \<open>with_infinities\<close>\<close>




subsection \<open>Deduplication\<close>




text \<open>
  C3 as stated fails: \<open>Unique\<close> does not write into the other buffer and does not
  exchange the roles.  On a container with duplicates the current buffer is still
  \<open>entries_a\<close> afterwards, the other buffer is still empty, and the entries that
  were current before the call are in neither buffer.
\<close>

theorem Unique_other_buffer_counterexample:
  "Unique (=) two_columns = Inr (two_columns_unique, 3)
   \<and> Current two_columns_unique = Current two_columns
   \<and> Current two_columns_unique \<noteq> Other two_columns
   \<and> buf two_columns_unique (Other two_columns) = []
   \<and> buf two_columns_unique EntriesA \<noteq> buf two_columns (Current two_columns)
   \<and> buf two_columns_unique EntriesB \<noteq> buf two_columns (Current two_columns)"
proof -
  have a: "Current two_columns_unique = Current two_columns"
    and b: "Current two_columns_unique \<noteq> Other two_columns"
    and c: "buf two_columns_unique (Other two_columns) = []"
    and d: "buf two_columns_unique EntriesA \<noteq> buf two_columns (Current two_columns)"
    and e: "buf two_columns_unique EntriesB \<noteq> buf two_columns (Current two_columns)"
    by (simp_all add: two_columns_unique_def two_columns_def mk_state_def Current_def Other_def)
  from two_columns_Unique a b c d e show ?thesis by (intro conjI)
qed

text \<open>
  C3, amended.  \<open>Unique\<close> works in place: a successful call leaves the buffer roles
  as they were, leaves the other buffer unmodified, and puts the compacted entries
  that \<^verbatim>\<open>SegmentedUnique\<close> produces from the current buffer into that same current
  buffer, resized to the returned count; the layout becomes the one
  \<^verbatim>\<open>SegmentedUnique\<close> produces.
\<close>

theorem Unique_in_place:
  assumes "Unique key_comp s = Inr (s', n)"
  shows "Current s' = Current s
    \<and> Other s' = Other s
    \<and> buf s' (Other s) = buf s (Other s)
    \<and> buf s' (Current s)
        = fst (snd (SegmentedUnique (columns_ptr s) (buf s (Current s)) SketchUnique key_comp))
    \<and> columns_ptr s'
        = fst (SegmentedUnique (columns_ptr s) (buf s (Current s)) SketchUnique key_comp)
    \<and> length (buf s' (Current s)) = n"
proof -
  note u = Unique_Inr [OF assms]
  have c: "Current s' = Current s" and ot: "Other s' = Other s"
    using u(2) by (simp_all add: Current_def Other_def)
  have l: "length (buf s' (Current s)) = n"
    unfolding u(4) u(6) by (simp add: SegmentedUnique_def Let_def)
  from c ot u(5) u(4) u(3) l show ?thesis by (intro conjI)
qed

theorem Unique_in_place_witness:
  "Unique (=) two_columns = Inr (two_columns_unique, 3)
   \<and> Current two_columns_unique = EntriesA
   \<and> Other two_columns_unique = Other two_columns
   \<and> buf two_columns_unique (Other two_columns) = buf two_columns (Other two_columns)
   \<and> length (buf two_columns_unique (Current two_columns)) = 3"
proof -
  note t = Unique_in_place [OF two_columns_Unique]
  have c: "Current two_columns = EntriesA"
    by (simp add: two_columns_def mk_state_def Current_def)
  from t have a: "Current two_columns_unique = EntriesA" by (simp only: c)
  note b = t [THEN conjunct2, THEN conjunct1]
  note d = t [THEN conjunct2, THEN conjunct2, THEN conjunct1]
  note e = t [THEN conjunct2, THEN conjunct2, THEN conjunct2, THEN conjunct2, THEN conjunct2]
  from two_columns_Unique a b d e show ?thesis by (intro conjI)
qed




subsection \<open>The categorical flag\<close>

lemma later_has_categorical: "later s t \<Longrightarrow> has_categorical t = has_categorical s"
proof (induction rule: later.induct)
  case (later_refl s)
  then show ?case by simp
next
  case (later_Alternate s t)
  then show ?case by (simp add: Alternate_def)
next
  case (later_Unique s t key_comp t' n)
  then show ?case using Unique_Inr(7) by simp
qed

text \<open>
  C10.  If the constructor succeeds, then in the container it returns and in every
  state that follows it by \<open>Alternate\<close> and \<open>Unique\<close>, \<open>HasCategorical\<close> holds
  exactly when the feature types given to the constructor are non-empty and one of
  them is categorical; for an empty array it does not hold.
\<close>

theorem HasCategorical_set_at_construction:
  assumes "NewSketchContainer ftypes max_bin n_columns n_rows dev = Inr s"
    and "later s t"
  shows "HasCategorical t = (ftypes \<noteq> [] \<and> kCategorical \<in> set ftypes)
    \<and> (ftypes = [] \<longrightarrow> \<not> HasCategorical t)"
proof -
  from assms(1) have "has_categorical s = (ftypes \<noteq> [] \<and> list_ex IsCatOp ftypes)"
    by (auto simp: NewSketchContainer_def split: if_splits)
  also have "list_ex IsCatOp ftypes = (kCategorical \<in> set ftypes)"
    by (auto simp: list_ex_iff IsCatOp_def)
  finally have "has_categorical s = (ftypes \<noteq> [] \<and> kCategorical \<in> set ftypes)" .
  with later_has_categorical [OF assms(2)] show ?thesis
    by (simp add: HasCategorical_def)
qed

theorem HasCategorical_set_at_construction_witness:
  "NewSketchContainer [kNumerical, kCategorical] 256 2 100 0
     = Inr \<lparr>feature_types = [kNumerical, kCategorical], num_rows = 100, num_columns = 2,
            num_bins = 256, device = 0, entries_a = [], entries_b = [], current_buffer = True,
            columns_ptr = [0, 0, 0], columns_ptr_b = [0, 0, 0], has_categorical = True\<rparr>
   \<and> HasCategorical
        (Alternate \<lparr>feature_types = [kNumerical, kCategorical], num_rows = 100, num_columns = 2,
            num_bins = 256, device = 0, entries_a = [], entries_b = [], current_buffer = True,
            columns_ptr = [0, 0, 0], columns_ptr_b = [0, 0, 0], has_categorical = True\<rparr>)"
proof -
  let ?s = "\<lparr>feature_types = [kNumerical, kCategorical], num_rows = 100, num_columns = 2,
            num_bins = 256, device = 0, entries_a = [], entries_b = [], current_buffer = True,
            columns_ptr = [0, 0, 0], columns_ptr_b = [0, 0, 0], has_categorical = True\<rparr>"
  have "unat (2 + 1 :: 32 word) = 3" by simp
  then have "replicate (unat (2 + 1 :: 32 word)) (0::nat) = [0, 0, 0]"
    by (simp only: numeral_3_eq_3 replicate.simps)
  then have c: "NewSketchContainer [kNumerical, kCategorical] 256 2 100 0 = Inr ?s"
    by (simp add: NewSketchContainer_def IsCatOp_def)
  have l: "later ?s (Alternate ?s)"
    by (intro later_Alternate later_refl)
  from HasCategorical_set_at_construction [OF c l]
  have "HasCategorical (Alternate ?s)" by simp
  with c show ?thesis by (intro conjI)
qed

subsection \<open>Pruning\<close>

lemma length_PruneColumn: "length (PruneColumn pick to col) = min (length col) to"
  by (simp add: PruneColumn_def)

lemma PruneColumn_noop: "length col \<le> to \<Longrightarrow> PruneColumn pick to col = col"
  by (simp add: PruneColumn_def)

lemma PruneColumn_ends:
  assumes "2 \<le> to \<or> length col \<le> to" and "col \<noteq> []"
  shows "hd (PruneColumn pick to col) = hd col \<and> last (PruneColumn pick to col) = last col"
proof (cases "length col \<le> to")
  case True
  then show ?thesis by (simp add: PruneColumn_def)
next
  case False
  with assms(1) have to: "2 \<le> to" by simp
  then have ne: "[0..<to] \<noteq> []" by simp
  have h: "hd [0..<to] = 0" using to by (simp add: hd_conv_nth)
  have l: "last [0..<to] = to - 1" using to by (simp add: last_conv_nth)
  have "to - 1 \<noteq> 0" using to by simp
  with False ne h l show ?thesis
    by (simp add: PruneColumn_def hd_map last_map)
qed

lemma sorted_by_value_ends:
  assumes "sorted_by_value col" and "e \<in> set col"
  shows "entry_value (hd col) \<le> entry_value e \<and> entry_value e \<le> entry_value (last col)"
proof -
  from assms(2) obtain i where i: "i < length col" "col ! i = e"
    by (auto simp: in_set_conv_nth)
  then have ne: "col \<noteq> []" by auto
  from assms(1) have sw: "sorted_wrt (\<lambda>a b. entry_value a \<le> entry_value b) col"
    and nn: "\<forall>x \<in> set col. entry_value x \<noteq> NaN"
    by (simp_all add: sorted_by_value_def list_all_iff)
  from nn assms(2) have refl: "entry_value e \<le> entry_value e"
    by (simp add: float_le_refl)
  have first: "entry_value (col ! 0) \<le> entry_value e"
  proof (cases "i = 0")
    case True
    with i refl show ?thesis by simp
  next
    case False
    then have "0 < i" by simp
    from sorted_wrt_nth_less [OF sw this i(1)] i(2) show ?thesis by simp
  qed
  have last: "entry_value e \<le> entry_value (col ! (length col - 1))"
  proof (cases "i = length col - 1")
    case True
    with i refl show ?thesis by simp
  next
    case False
    with i(1) have "i < length col - 1" "length col - 1 < length col" by simp_all
    from sorted_wrt_nth_less [OF sw this] i(2) show ?thesis by simp
  qed
  from first last ne show ?thesis
    by (simp add: hd_conv_nth last_conv_nth)
qed

lemma Prune_columns:
  assumes "wf s"
  shows "wf (Prune pick to s)"
    and "columns (Prune pick to s) = map (PruneColumn pick to) (columns s)"
    and "Current (Prune pick to s) = Other s"
    and "buf (Prune pick to s) (Current s) = buf s (Current s)"
proof -
  let ?ptr = "columns_ptr s"
  let ?outs = "map (\<lambda>c. PruneColumn pick to (segment ?ptr (buf s (Current s)) c))
                 [0..<length ?ptr - 1]"
  let ?t = "Prune pick to s"
  from assms have ne: "?ptr \<noteq> []" by (simp add: wf_def wf_layout_def)
  have len: "length ?outs = length ?ptr - 1" by simp
  show cur: "Current ?t = Other s"
    by (cases "current_buffer s") (simp_all add: Prune_def Let_def Alternate_def Current_def Other_def)
  have ptr': "columns_ptr ?t = exclusive_scan (length ?ptr) (map length ?outs)"
    by (cases "current_buffer s") (simp_all add: Prune_def Let_def Alternate_def Current_def Other_def)
  have buf': "buf ?t (Other s) = concat ?outs"
    by (cases "current_buffer s") (simp_all add: Prune_def Let_def Alternate_def Current_def Other_def)
  show "buf ?t (Current s) = buf s (Current s)"
    by (cases "current_buffer s") (simp_all add: Prune_def Let_def Alternate_def Current_def Other_def)
  show "wf ?t"
    unfolding wf_def cur ptr' buf' by (rule columns_after_rewrite(2) [OF ne len])
  have "columns ?t = ?outs"
    unfolding columns_def cur ptr' buf' by (rule columns_after_rewrite(1) [OF ne len])
  also have "?outs = map (PruneColumn pick to) (columns s)"
    by (simp add: columns_def)
  finally show "columns ?t = map (PruneColumn pick to) (columns s)" .
qed

text \<open>
  C5 as stated fails at \<open>to = 1\<close>: the first column of \<open>two_columns\<close> holds the
  values 1, 1, 2; pruned to one entry it keeps the entry of value 1, and the value 2,
  the column's maximum, is gone.  One entry cannot hold two different values, so no
  selection rule could keep both.
\<close>

theorem Prune_to_one_counterexample:
  "columns two_columns ! 0 = [mk_entry 0 1 1 1, mk_entry 1 2 1 1, mk_entry 2 3 1 2]
   \<and> columns (Prune pick_at 1 two_columns) ! 0 = [mk_entry 0 1 1 1]
   \<and> entry_value (last (columns two_columns ! 0))
        \<notin> set (map entry_value (columns (Prune pick_at 1 two_columns) ! 0))"
proof -
  have a: "columns two_columns ! 0 = [mk_entry 0 1 1 1, mk_entry 1 2 1 1, mk_entry 2 3 1 2]"
    by (simp add: two_columns_columns)
  have b: "columns (Prune pick_at 1 two_columns) ! 0 = [mk_entry 0 1 1 1]"
    by (simp add: Prune_columns(2) [OF two_columns_wf] two_columns_columns PruneColumn_def)
  have c: "entry_value (last (columns two_columns ! 0))
        \<notin> set (map entry_value (columns (Prune pick_at 1 two_columns) ! 0))"
    unfolding a b by (simp add: mk_entry_def)
  from a b c show ?thesis by (intro conjI)
qed

text \<open>
  C5, amended.  On a container with a well-formed layout, whatever the lookup rule,
  \<open>Prune to\<close> keeps the layout well-formed and the number of columns, leaves every
  column with at most \<open>to\<close> entries and never with more than it had, and leaves a
  column of at most \<open>to\<close> entries unchanged.  When \<open>to\<close> is at least 2, or the column
  already has at most \<open>to\<close> entries, a non-empty column keeps its first and its last
  entry as first and last entry; in a column sorted by value these carry the minimum
  and the maximum value.
\<close>

theorem Prune_bounds_every_column:
  assumes "wf s" and "c < length (columns s)"
  shows "wf (Prune pick to s)
    \<and> length (columns (Prune pick to s)) = length (columns s)
    \<and> length (columns (Prune pick to s) ! c) \<le> to
    \<and> length (columns (Prune pick to s) ! c) \<le> length (columns s ! c)
    \<and> (length (columns s ! c) \<le> to \<longrightarrow> columns (Prune pick to s) ! c = columns s ! c)
    \<and> ((2 \<le> to \<or> length (columns s ! c) \<le> to) \<and> columns s ! c \<noteq> []
         \<longrightarrow> hd (columns (Prune pick to s) ! c) = hd (columns s ! c)
           \<and> last (columns (Prune pick to s) ! c) = last (columns s ! c))
    \<and> (sorted_by_value (columns s ! c)
         \<longrightarrow> (\<forall>e \<in> set (columns s ! c).
                entry_value (hd (columns s ! c)) \<le> entry_value e
                \<and> entry_value e \<le> entry_value (last (columns s ! c))))"
proof -
  note p = Prune_columns [OF assms(1), of pick to]
  have nth: "columns (Prune pick to s) ! c = PruneColumn pick to (columns s ! c)"
    using assms(2) by (simp add: p(2))
  have a: "length (columns (Prune pick to s)) = length (columns s)"
    by (simp add: p(2))
  have b: "length (columns (Prune pick to s) ! c) \<le> to"
    and d: "length (columns (Prune pick to s) ! c) \<le> length (columns s ! c)"
    by (simp_all add: nth length_PruneColumn)
  have e: "length (columns s ! c) \<le> to \<longrightarrow> columns (Prune pick to s) ! c = columns s ! c"
    by (simp add: nth PruneColumn_noop)
  have f: "(2 \<le> to \<or> length (columns s ! c) \<le> to) \<and> columns s ! c \<noteq> []
         \<longrightarrow> hd (columns (Prune pick to s) ! c) = hd (columns s ! c)
           \<and> last (columns (Prune pick to s) ! c) = last (columns s ! c)"
    unfolding nth using PruneColumn_ends [of to "columns s ! c" pick] by blast
  have g: "sorted_by_value (columns s ! c)
         \<longrightarrow> (\<forall>e \<in> set (columns s ! c).
                entry_value (hd (columns s ! c)) \<le> entry_value e
                \<and> entry_value e \<le> entry_value (last (columns s ! c)))"
    using sorted_by_value_ends [of "columns s ! c"] by blast
  from p(1) a b d e f g show ?thesis by (intro conjI)
qed

theorem Prune_bounds_every_column_witness:
  "wf two_columns
   \<and> (0::nat) < length (columns two_columns)
   \<and> wf (Prune pick_at 2 two_columns)
   \<and> length (columns (Prune pick_at 2 two_columns) ! 0) \<le> 2
   \<and> hd (columns (Prune pick_at 2 two_columns) ! 0) = mk_entry 0 1 1 1
   \<and> last (columns (Prune pick_at 2 two_columns) ! 0) = mk_entry 2 3 1 2"
proof -
  have l: "(0::nat) < length (columns two_columns)"
    by (simp add: two_columns_columns)
  note t = Prune_bounds_every_column [OF two_columns_wf l, of pick_at 2]
  note a = t [THEN conjunct1]
  note b = t [THEN conjunct2, THEN conjunct2, THEN conjunct1]
  note f = t [THEN conjunct2, THEN conjunct2, THEN conjunct2, THEN conjunct2, THEN conjunct2,
      THEN conjunct1]
  have "columns two_columns ! 0 \<noteq> []" "hd (columns two_columns ! 0) = mk_entry 0 1 1 1"
    "last (columns two_columns ! 0) = mk_entry 2 3 1 2"
    by (simp_all add: two_columns_columns)
  with f have h: "hd (columns (Prune pick_at 2 two_columns) ! 0) = mk_entry 0 1 1 1"
    and k: "last (columns (Prune pick_at 2 two_columns) ! 0) = mk_entry 2 3 1 2"
    by simp_all
  from two_columns_wf l a b h k show ?thesis by (intro conjI)
qed

subsection \<open>Rank-bound repair\<close>

lemma length_FixErrorFrom: "length (FixErrorFrom a b es) = length es"
  by (induction es arbitrary: a b) (simp_all add: Let_def)

lemma FixErrorFrom_keeps:
  "list_all2 (\<lambda>e e'. entry_value e' = entry_value e \<and> weight_min e' = weight_min e
                     \<and> rank_min e \<le> rank_min e' \<and> rank_max e \<le> rank_max e')
     es (FixErrorFrom a b es)"
  by (induction es arbitrary: a b) (simp_all add: Let_def)

lemma FixErrorFrom_Cons:
  assumes "rmin = max (rank_min x) a" and "rmax = max (max (rank_max x) rmin) b"
  shows "FixErrorFrom a b (x # es)
           = x\<lparr>rank_min := rmin, rank_max := rmax\<rparr> # FixErrorFrom rmin rmax es"
  by (simp add: Let_def assms)

lemma FixErrorFrom_lower:
  "e \<in> set (FixErrorFrom a b es) \<Longrightarrow> a \<le> rank_min e \<and> b \<le> rank_max e"
proof (induction es arbitrary: a b)
  case Nil
  then show ?case by simp
next
  case (Cons x es)
  define rmin where "rmin = max (rank_min x) a"
  define rmax where "rmax = max (max (rank_max x) rmin) b"
  have ab: "a \<le> rmin" "b \<le> rmax"
    by (simp_all add: rmin_def rmax_def)
  from Cons.prems
  have "e = x\<lparr>rank_min := rmin, rank_max := rmax\<rparr> \<or> e \<in> set (FixErrorFrom rmin rmax es)"
    by (simp only: FixErrorFrom_Cons [OF rmin_def rmax_def] set_ConsD list.set insert_iff)
  then show ?case
  proof
    assume "e = x\<lparr>rank_min := rmin, rank_max := rmax\<rparr>"
    with ab show ?thesis by simp
  next
    assume "e \<in> set (FixErrorFrom rmin rmax es)"
    from Cons.IH [OF this] ab show ?thesis by linarith
  qed
qed

lemma FixErrorFrom_ok: "rank_bounds_ok (FixErrorFrom a b es)"
proof (induction es arbitrary: a b)
  case Nil
  then show ?case by (simp add: rank_bounds_ok_def)
next
  case (Cons x es)
  define rmin where "rmin = max (rank_min x) a"
  define rmax where "rmax = max (max (rank_max x) rmin) b"
  have le: "rmin \<le> rmax"
    by (simp add: rmax_def le_max_iff_disj)
  have low: "\<forall>e \<in> set (FixErrorFrom rmin rmax es). rmin \<le> rank_min e \<and> rmax \<le> rank_max e"
    using FixErrorFrom_lower by blast
  from Cons.IH [of rmin rmax] low le
  have "rank_bounds_ok (x\<lparr>rank_min := rmin, rank_max := rmax\<rparr> # FixErrorFrom rmin rmax es)"
    by (simp add: rank_bounds_ok_def)
  then show ?case
    by (simp only: FixErrorFrom_Cons [OF rmin_def rmax_def])
qed

lemma FixErrorFrom_idem: "FixErrorFrom a b (FixErrorFrom a b es) = FixErrorFrom a b es"
proof (induction es arbitrary: a b)
  case Nil
  then show ?case by simp
next
  case (Cons x es)
  define rmin where "rmin = max (rank_min x) a"
  define rmax where "rmax = max (max (rank_max x) rmin) b"
  define x' where "x' = x\<lparr>rank_min := rmin, rank_max := rmax\<rparr>"
  have r1: "rmin = max (rank_min x') a"
    by (simp add: x'_def rmin_def)
  have "rmin \<le> rmax" "b \<le> rmax"
    by (simp_all add: rmax_def le_max_iff_disj)
  then have r2: "rmax = max (max (rank_max x') rmin) b"
    by (simp add: x'_def)
  have same: "x'\<lparr>rank_min := rmin, rank_max := rmax\<rparr> = x'"
    by (simp add: x'_def)
  have first: "FixErrorFrom a b (x # es) = x' # FixErrorFrom rmin rmax es"
    by (simp only: FixErrorFrom_Cons [OF rmin_def rmax_def] x'_def)
  have "FixErrorFrom a b (x' # FixErrorFrom rmin rmax es)
          = x' # FixErrorFrom rmin rmax (FixErrorFrom rmin rmax es)"
    by (simp only: FixErrorFrom_Cons [OF r1 r2] same)
  then show ?case
    by (simp only: first Cons.IH)
qed

lemma FixError_columns:
  assumes "wf s"
  shows "wf (FixError s)"
    and "columns (FixError s) = map FixErrorColumn (columns s)"
    and "columns_ptr (FixError s) = columns_ptr s"
    and "current_buffer (FixError s) = current_buffer s"
    and "buf (FixError s) (Other s) = buf s (Other s)"
    and "buf (FixError s) (Current s) = concat (map FixErrorColumn (columns s))"
proof -
  let ?ptr = "columns_ptr s"
  let ?outs = "map FixErrorColumn (columns s)"
  let ?t = "FixError s"
  from assms have ne: "?ptr \<noteq> []" by (simp add: wf_def wf_layout_def)
  have len: "length ?outs = length ?ptr - 1" by (simp add: columns_def)
  show ptr': "columns_ptr ?t = ?ptr"
    by (simp add: FixError_def columns_ptr_set_buf)
  show cb: "current_buffer ?t = current_buffer s"
    by (cases "Current s") (simp_all add: FixError_def)
  then have cur: "Current ?t = Current s" by (simp add: Current_def)
  show "buf ?t (Other s) = buf s (Other s)"
    using Current_neq_Other [of s] by (simp add: FixError_def buf_set_buf)
  show buf': "buf ?t (Current s) = concat ?outs"
    by (simp add: FixError_def buf_set_buf columns_def comp_def)
  have "map length ?outs = map length (map (segment ?ptr (buf s (Current s))) [0..<length ?ptr - 1])"
    by (simp add: columns_def FixErrorColumn_def length_FixErrorFrom)
  then have scan: "exclusive_scan (length ?ptr) (map length ?outs) = ?ptr"
    using wf_layout_is_scan [OF assms [unfolded wf_def]] by simp
  show "wf ?t"
    unfolding wf_def cur ptr' buf'
    using columns_after_rewrite(2) [OF ne len] by (simp only: scan)
  have "columns ?t = map (segment (columns_ptr ?t) (buf ?t (Current ?t)))
                       [0..<length (columns_ptr ?t) - 1]"
    by (simp only: columns_def)
  also have "\<dots> = map (segment ?ptr (concat ?outs)) [0..<length ?ptr - 1]"
    by (simp only: cur ptr' buf')
  also have "\<dots> = ?outs"
    using columns_after_rewrite(1) [OF ne len] by (simp only: scan)
  finally show "columns ?t = ?outs" .
qed

text \<open>
  The example container \<open>drifted\<close>: two columns whose rank bounds violate the
  invariant, as they may after rounding.
\<close>

lemma drifted_wf: "wf drifted"
  by (simp add: wf_def wf_layout_def drifted_def mk_state_def Current_def)

lemma drifted_columns:
  "columns drifted = [[mk_entry 2 1 1 1, mk_entry 1 3 1 2], [mk_entry 4 2 1 7]]"
  by (simp add: columns_def segment_def drifted_def mk_state_def Current_def upt_rec)

lemma FixError_by_columns:
  "FixError s = set_buf (Current s) (concat (map FixErrorColumn (columns s))) s"
  by (simp add: FixError_def columns_def comp_def)

lemma drifted_FixError:
  "FixError drifted
     = drifted\<lparr>entries_a := [mk_entry 2 2 1 1, mk_entry 2 3 1 2, mk_entry 4 4 1 7]\<rparr>"
proof -
  have c: "Current drifted = EntriesA"
    by (simp add: drifted_def mk_state_def Current_def)
  have f1: "FixErrorColumn [mk_entry 2 1 1 1, mk_entry 1 3 1 2]
              = [mk_entry 2 2 1 1, mk_entry 2 3 1 2]"
    and f2: "FixErrorColumn [mk_entry 4 2 1 7] = [mk_entry 4 4 1 7]"
    by (simp_all add: FixErrorColumn_def Let_def mk_entry_def)
  show ?thesis
    by (simp add: FixError_by_columns c drifted_columns f1 f2)
qed

lemma set_buf_twice: "set_buf b xs (set_buf b ys s) = set_buf b xs s"
  by (cases b) simp_all

text \<open>
  C6.  On a container with a well-formed layout \<open>FixError\<close> leaves the layout, the
  buffer roles and the other buffer as they are and keeps the layout well-formed.
  Every column keeps its entries in number and order: entry by entry the value and
  \<open>weight_min\<close> are the same and neither bound is lowered.  In every column after
  the pass each entry has \<open>rank_min \<le> rank_max\<close>, and \<open>rank_min\<close> and \<open>rank_max\<close>
  are each no less than those of the entry before.
\<close>

theorem FixError_forward_pass:
  assumes "wf s"
  shows "columns_ptr (FixError s) = columns_ptr s
    \<and> Current (FixError s) = Current s
    \<and> buf (FixError s) (Other s) = buf s (Other s)
    \<and> wf (FixError s)
    \<and> length (columns (FixError s)) = length (columns s)
    \<and> list_all2 (\<lambda>e e'. entry_value e' = entry_value e \<and> weight_min e' = weight_min e
                        \<and> rank_min e \<le> rank_min e' \<and> rank_max e \<le> rank_max e')
         (buf s (Current s)) (buf (FixError s) (Current s))
    \<and> (\<forall>c<length (columns s).
          length (columns (FixError s) ! c) = length (columns s ! c)
          \<and> (\<forall>i<length (columns (FixError s) ! c).
               rank_min (columns (FixError s) ! c ! i) \<le> rank_max (columns (FixError s) ! c ! i)
               \<and> (0 < i \<longrightarrow>
                    rank_min (columns (FixError s) ! c ! (i - 1))
                      \<le> rank_min (columns (FixError s) ! c ! i)
                    \<and> rank_max (columns (FixError s) ! c ! (i - 1))
                      \<le> rank_max (columns (FixError s) ! c ! i))))"
proof -
  note f = FixError_columns [OF assms]
  have a: "Current (FixError s) = Current s"
    using f(4) by (simp add: Current_def)
  have b: "length (columns (FixError s)) = length (columns s)"
    by (simp add: f(2))
  have "list_all2 (list_all2 (\<lambda>e e'. entry_value e' = entry_value e \<and> weight_min e' = weight_min e
                        \<and> rank_min e \<le> rank_min e' \<and> rank_max e \<le> rank_max e'))
          (columns s) (map FixErrorColumn (columns s))"
    by (simp add: list_all2_conv_all_nth FixErrorColumn_def FixErrorFrom_keeps [unfolded list_all2_conv_all_nth])
  then have "list_all2 (\<lambda>e e'. entry_value e' = entry_value e \<and> weight_min e' = weight_min e
                        \<and> rank_min e \<le> rank_min e' \<and> rank_max e \<le> rank_max e')
          (concat (columns s)) (concat (map FixErrorColumn (columns s)))"
    by (rule concat_transfer [THEN rel_funD])
  then have d: "list_all2 (\<lambda>e e'. entry_value e' = entry_value e \<and> weight_min e' = weight_min e
                        \<and> rank_min e \<le> rank_min e' \<and> rank_max e \<le> rank_max e')
         (buf s (Current s)) (buf (FixError s) (Current s))"
    by (simp only: concat_columns [OF assms] f(6))
  have e: "length (columns (FixError s) ! c) = length (columns s ! c)
          \<and> (\<forall>i<length (columns (FixError s) ! c).
               rank_min (columns (FixError s) ! c ! i) \<le> rank_max (columns (FixError s) ! c ! i)
               \<and> (0 < i \<longrightarrow>
                    rank_min (columns (FixError s) ! c ! (i - 1))
                      \<le> rank_min (columns (FixError s) ! c ! i)
                    \<and> rank_max (columns (FixError s) ! c ! (i - 1))
                      \<le> rank_max (columns (FixError s) ! c ! i)))"
    if "c < length (columns s)" for c
  proof -
    let ?col = "FixErrorColumn (columns s ! c)"
    have nth: "columns (FixError s) ! c = ?col"
      using that by (simp add: f(2))
    have ok: "rank_bounds_ok ?col"
      by (simp add: FixErrorColumn_def FixErrorFrom_ok)
    from ok have le: "\<forall>e \<in> set ?col. rank_min e \<le> rank_max e"
      and smin: "sorted (map rank_min ?col)" and smax: "sorted (map rank_max ?col)"
      by (simp_all add: rank_bounds_ok_def list_all_iff)
    have l: "length ?col = length (columns s ! c)"
      by (simp add: FixErrorColumn_def length_FixErrorFrom)
    have p: "rank_min (?col ! i) \<le> rank_max (?col ! i)
               \<and> (0 < i \<longrightarrow> rank_min (?col ! (i - 1)) \<le> rank_min (?col ! i)
                    \<and> rank_max (?col ! (i - 1)) \<le> rank_max (?col ! i))"
      if i: "i < length ?col" for i
    proof -
      from le i have "rank_min (?col ! i) \<le> rank_max (?col ! i)" by simp
      moreover have "map rank_min ?col ! (i - 1) \<le> map rank_min ?col ! i"
        using smin i by (intro sorted_nth_mono) simp_all
      moreover have "map rank_max ?col ! (i - 1) \<le> map rank_max ?col ! i"
        using smax i by (intro sorted_nth_mono) simp_all
      ultimately show ?thesis using i by simp
    qed
    from l p show ?thesis unfolding nth by blast
  qed
  then have e': "\<forall>c<length (columns s).
          length (columns (FixError s) ! c) = length (columns s ! c)
          \<and> (\<forall>i<length (columns (FixError s) ! c).
               rank_min (columns (FixError s) ! c ! i) \<le> rank_max (columns (FixError s) ! c ! i)
               \<and> (0 < i \<longrightarrow>
                    rank_min (columns (FixError s) ! c ! (i - 1))
                      \<le> rank_min (columns (FixError s) ! c ! i)
                    \<and> rank_max (columns (FixError s) ! c ! (i - 1))
                      \<le> rank_max (columns (FixError s) ! c ! i)))"
    by blast
  from f(3) a f(5) f(1) b d e' show ?thesis by (intro conjI)
qed

theorem FixError_forward_pass_witness:
  "wf drifted
   \<and> \<not> rank_bounds_ok (columns drifted ! 0)
   \<and> wf (FixError drifted)
   \<and> columns_ptr (FixError drifted) = columns_ptr drifted
   \<and> length (columns (FixError drifted) ! 0) = 2
   \<and> rank_min (columns (FixError drifted) ! 0 ! 1) \<le> rank_max (columns (FixError drifted) ! 0 ! 1)
   \<and> rank_min (columns (FixError drifted) ! 0 ! 0) \<le> rank_min (columns (FixError drifted) ! 0 ! 1)
   \<and> rank_max (columns (FixError drifted) ! 0 ! 0) \<le> rank_max (columns (FixError drifted) ! 0 ! 1)"
proof -
  note t = FixError_forward_pass [OF drifted_wf]
  note a = t [THEN conjunct1]
  note b = t [THEN conjunct2, THEN conjunct2, THEN conjunct2, THEN conjunct1]
  note g = t [THEN conjunct2, THEN conjunct2, THEN conjunct2, THEN conjunct2, THEN conjunct2,
      THEN conjunct2, rule_format, of 0]
  have l: "(0::nat) < length (columns drifted)" "length (columns drifted ! 0) = 2"
    by (simp_all add: drifted_columns)
  have bad: "\<not> rank_bounds_ok (columns drifted ! 0)"
    by (simp add: drifted_columns rank_bounds_ok_def mk_entry_def)
  from g [OF l(1)] have len: "length (columns (FixError drifted) ! 0) = 2"
    by (simp only: l(2))
  have i: "(1::nat) < length (columns (FixError drifted) ! 0)" "(0::nat) < 1"
    by (simp_all add: len)
  from g [OF l(1), THEN conjunct2, rule_format, OF i(1)]
  have p: "rank_min (columns (FixError drifted) ! 0 ! 1) \<le> rank_max (columns (FixError drifted) ! 0 ! 1)"
    and q: "rank_min (columns (FixError drifted) ! 0 ! 0) \<le> rank_min (columns (FixError drifted) ! 0 ! 1)"
    and r: "rank_max (columns (FixError drifted) ! 0 ! 0) \<le> rank_max (columns (FixError drifted) ! 0 ! 1)"
    by simp_all
  from drifted_wf bad b a len p q r show ?thesis by (intro conjI)
qed

text \<open>
  C7.  On a container with a well-formed layout a second \<open>FixError\<close> right after a
  first changes nothing: the state after the second call is the state after the first,
  every entry and the layout included.
\<close>

theorem FixError_idempotent:
  assumes "wf s"
  shows "FixError (FixError s) = FixError s"
proof -
  note f = FixError_columns [OF assms]
  have cur: "Current (FixError s) = Current s"
    using f(4) by (simp add: Current_def)
  have "map FixErrorColumn (map FixErrorColumn (columns s)) = map FixErrorColumn (columns s)"
    by (simp add: FixErrorColumn_def FixErrorFrom_idem)
  then have "FixError (FixError s)
      = set_buf (Current s) (concat (map FixErrorColumn (columns s))) (FixError s)"
    by (simp only: FixError_by_columns [of "FixError s"] cur f(2))
  also have "\<dots> = FixError s"
    by (simp only: FixError_by_columns [of s] set_buf_twice)
  finally show ?thesis .
qed

theorem FixError_idempotent_witness:
  "wf drifted
   \<and> FixError drifted \<noteq> drifted
   \<and> FixError (FixError drifted) = FixError drifted"
proof -
  have "entries_a (FixError drifted) \<noteq> entries_a drifted"
    by (simp add: drifted_FixError) (simp add: drifted_def mk_state_def mk_entry_def)
  then have n: "FixError drifted \<noteq> drifted" by auto
  from drifted_wf n FixError_idempotent [OF drifted_wf] show ?thesis by (intro conjI)
qed

subsection \<open>The layout check of \<^verbatim>\<open>Unique\<close>\<close>

text \<open>
  \<open>Unique\<close> fails exactly when the layout does not have \<open>num_columns + 1\<close>
  offsets, the sum taken in 32 bits; a failed call returns no state.
\<close>

lemma Unique_layout_check:
  "(Unique key_comp s = Inl CheckColumnScan)
     = (length (columns_ptr s) \<noteq> unat (num_columns s + 1))"
  by (simp add: Unique_def Let_def split: prod.splits)

lemma Unique_only_failure: "Unique key_comp s = Inl f \<Longrightarrow> f = CheckColumnScan"
  by (simp add: Unique_def Let_def split: prod.splits if_splits)

text \<open>
  A container fresh from the constructor passes the check, and its layout is
  well-formed unless \<open>num_columns + 1\<close> wraps to zero.
\<close>

lemma NewSketchContainer_layout:
  assumes "NewSketchContainer ftypes max_bin n_columns n_rows dev = Inr s"
  shows "length (columns_ptr s) = unat (num_columns s + 1)"
    and "n_columns + 1 \<noteq> 0 \<Longrightarrow> wf s"
proof -
  from assms have s: "columns_ptr s = replicate (unat (n_columns + 1)) 0"
    "num_columns s = n_columns" "entries_a s = []" "current_buffer s"
    by (auto simp: NewSketchContainer_def split: if_splits)
  show "length (columns_ptr s) = unat (num_columns s + 1)"
    by (simp add: s)
  assume "n_columns + 1 \<noteq> 0"
  then have "0 < unat (n_columns + 1)" by (simp add: unat_gt_0)
  then obtain k where k: "unat (n_columns + 1) = Suc k" by (cases "unat (n_columns + 1)") simp_all
  show "wf s"
    by (simp add: wf_def wf_layout_def s k Current_def hd_conv_nth last_conv_nth del: replicate.simps)
qed

subsection \<open>\<^verbatim>\<open>Column\<close> on a well-formed layout\<close>

text \<open>
  On a well-formed layout the bounds checks of \<^verbatim>\<open>Column(i)\<close> pass for every
  column index, and the span it returns is the column of that index.
\<close>

lemma Column_columns:
  assumes "wf s" and "unat i < length (columns s)" and "i + 1 \<noteq> 0"
  shows "Column i s = Inr (columns s ! unat i)"
proof -
  let ?ptr = "columns_ptr s"
  from assms(1) have s: "sorted ?ptr" and l: "last ?ptr = length (buf s (Current s))"
    and ne: "?ptr \<noteq> []"
    by (simp_all add: wf_def wf_layout_def)
  have suc: "unat (i + 1) = Suc (unat i)"
    using assms(3) unatSuc [of i] by (simp add: add.commute)
  from assms(2) have i: "Suc (unat i) < length ?ptr"
    by (simp add: length_columns)
  have a: "?ptr ! unat i \<le> ?ptr ! Suc (unat i)"
    using s i by (intro sorted_nth_mono) simp_all
  have "?ptr ! Suc (unat i) \<le> ?ptr ! (length ?ptr - 1)"
    using s i by (intro sorted_nth_mono) simp_all
  then have b: "?ptr ! Suc (unat i) \<le> length (buf s (Current s))"
    using l ne by (simp add: last_conv_nth)
  from i a b show ?thesis
    by (simp add: Column_def Let_def suc columns_nth [OF assms(2)] segment_def)
qed

end
